theory Spec2Isabelle
  imports Main "HOL-Library.Sublist"
begin

section \<open>IMAP-Migrator: data model\<close>

text \<open>
  Python strings are modelled as \<open>string\<close> (lists of characters). A value that may be
  \<^verbatim>\<open>None\<close> is an \<open>option\<close>: \<^verbatim>\<open>csv.DictReader\<close> fills the fields a short row lacks
  with \<^verbatim>\<open>None\<close>, and these values flow unchanged into the \<^verbatim>\<open>Mailbox\<close> objects.
\<close>

record mailbox =
  type_ :: string
  username :: "string option"
  password :: "string option"
  host :: "string option"
  port :: "string option"
  use_ssl :: bool

record migration =
  old :: mailbox
  new :: mailbox

text \<open>\<^verbatim>\<open>Mailbox.__init__\<close>: a \<^verbatim>\<open>use_ssl\<close> of \<^verbatim>\<open>None\<close> is stored as \<^verbatim>\<open>False\<close>.\<close>

definition Mailbox ::
  "string \<Rightarrow> string option \<Rightarrow> string option \<Rightarrow> string option \<Rightarrow> string option \<Rightarrow> bool option \<Rightarrow> mailbox"
where
  "Mailbox t u p h po s =
     \<lparr>type_ = t, username = u, password = p, host = h, port = po,
      use_ssl = (case s of None \<Rightarrow> False | Some b \<Rightarrow> b)\<rparr>"

definition Migration :: "mailbox \<Rightarrow> mailbox \<Rightarrow> migration" where
  "Migration old_mailbox new_mailbox = \<lparr>old = old_mailbox, new = new_mailbox\<rparr>"

text \<open>Exceptions that leave a function of the program.\<close>

datatype py_error = AttributeError | ValueError | IndexError | SystemExit int

text \<open>
  What a run does to the outside, in program order: calls of the logger (by level; a
  debug call receives an argument list), directory creation, \<^verbatim>\<open>subprocess.call\<close> with the
  exit status it returned, and \<^verbatim>\<open>print\<close>.
\<close>

datatype event =
    LogCritical string
  | LogError string
  | LogInfo string
  | LogDebug "string list"
  | Makedirs string
  | Mkdir string
  | Call "string list" int
  | Print int

section \<open>Python string primitives\<close>

text \<open>
  \<^verbatim>\<open>str.lower\<close> on the ASCII range (characters are bytes here; no character outside
  \<open>A\<close>..\<open>Z\<close> lowers to a letter of \<open>false\<close>).
\<close>

definition lower_char :: "char \<Rightarrow> char" where
  "lower_char c =
     (let n = (of_char c :: nat) in if 65 \<le> n \<and> n \<le> 90 then char_of (n + 32) else c)"

definition lower :: "string \<Rightarrow> string" where
  "lower s = map lower_char s"

text \<open>Truthiness of an optional string: \<^verbatim>\<open>None\<close> and \<^verbatim>\<open>""\<close> are false.\<close>

definition truthy :: "string option \<Rightarrow> bool" where
  "truthy v = (case v of None \<Rightarrow> False | Some s \<Rightarrow> s \<noteq> [])"

text \<open>\<^verbatim>\<open>"{}".format(v)\<close>: \<^verbatim>\<open>None\<close> is rendered as the text \<^verbatim>\<open>None\<close>.\<close>

definition fmt :: "string option \<Rightarrow> string" where
  "fmt v = (case v of None \<Rightarrow> ''None'' | Some s \<Rightarrow> s)"

section \<open>The loader: \<^verbatim>\<open>parse_mailboxes_csv\<close>\<close>

text \<open>
  One row as \<^verbatim>\<open>csv.DictReader\<close> yields it for the ten field names given by the loader.
\<close>

record row =
  old_username :: "string option"
  old_pass :: "string option"
  old_host :: "string option"
  old_port :: "string option"
  old_ssl :: "string option"
  new_username :: "string option"
  new_pass :: "string option"
  new_host :: "string option"
  new_port :: "string option"
  new_ssl :: "string option"

text \<open>Lines 146-147: \<^verbatim>\<open>False if v is not None and v.lower() == "false" else True\<close>.\<close>

definition parse_ssl :: "string option \<Rightarrow> bool" where
  "parse_ssl v = (if v \<noteq> None \<and> lower (the v) = ''false'' then False else True)"

text \<open>Lines 150-159: the default port of an empty port field.\<close>

definition default_port :: "string option \<Rightarrow> bool \<Rightarrow> string option" where
  "default_port p ssl =
     (if \<not> truthy p then (if ssl then Some ''993'' else Some ''143'') else p)"

text \<open>The body of the loop up to the two \<^verbatim>\<open>Mailbox\<close> objects (lines 146-164).\<close>

definition row_migration :: "row \<Rightarrow> migration" where
  "row_migration r =
     (let o_ssl = parse_ssl (old_ssl r);
          n_ssl = parse_ssl (new_ssl r);
          o_port = default_port (old_port r) o_ssl;
          n_port = default_port (new_port r) n_ssl;
          old_mailbox = Mailbox ''old'' (old_username r) (old_pass r) (old_host r) o_port (Some o_ssl);
          new_mailbox = Mailbox ''new'' (new_username r) (new_pass r) (new_host r) n_port (Some n_ssl)
      in Migration old_mailbox new_mailbox)"

text \<open>\<^verbatim>\<open>x in mailboxes_filter\<close> for an optional string and a list of strings.\<close>

definition in_filter :: "string option \<Rightarrow> string list \<Rightarrow> bool" where
  "in_filter u mailboxes_filter = (case u of None \<Rightarrow> False | Some s \<Rightarrow> s \<in> set mailboxes_filter)"

text \<open>The \<^verbatim>\<open>for row in csv_reader\<close> loop; the third argument is the list \<^verbatim>\<open>migrations\<close>.\<close>

fun parse_rows :: "row list \<Rightarrow> string list \<Rightarrow> migration list \<Rightarrow> migration list" where
  "parse_rows [] mailboxes_filter migrations = migrations"
| "parse_rows (r # rs) mailboxes_filter migrations =
     (let m = row_migration r in
      if mailboxes_filter = [''all''] \<or> in_filter (username (old m)) mailboxes_filter
      then parse_rows rs mailboxes_filter (migrations @ [m])
      else parse_rows rs mailboxes_filter migrations)"

text \<open>The outcome of \<^verbatim>\<open>open(csv_path)\<close>, with the rows the reader yields from the file.\<close>

datatype csv_source = FileNotFound | PermissionDenied | Opened "row list"

definition parse_mailboxes_csv ::
  "(string \<Rightarrow> csv_source) \<Rightarrow> string \<Rightarrow> string list \<Rightarrow> event list \<times> (py_error + migration list)"
where
  "parse_mailboxes_csv open_file csv_path mailboxes_filter =
     (case open_file csv_path of
        FileNotFound \<Rightarrow>
          ([LogCritical (''CSV file \"'' @ csv_path @ ''\" not found.'')], Inl (SystemExit 1))
      | PermissionDenied \<Rightarrow>
          ([LogCritical (''Access denied to CSV file \"'' @ csv_path @ ''\"'')], Inl (SystemExit 1))
      | Opened rows \<Rightarrow> ([], Inr (parse_rows rows mailboxes_filter [])))"

section \<open>Library primitives used by the runners\<close>

text \<open>
  The runners call a few functions of the Python standard library. They are written
  out here as the library computes them on a POSIX system: \<^verbatim>\<open>str.replace\<close>,
  \<^verbatim>\<open>str.startswith\<close>/\<^verbatim>\<open>endswith\<close>, \<^verbatim>\<open>posixpath.join\<close>, \<^verbatim>\<open>normpath\<close>, \<^verbatim>\<open>abspath\<close>,
  \<^verbatim>\<open>relpath\<close>, \<^verbatim>\<open>os.walk\<close> and \<^verbatim>\<open>shlex.split\<close>.
\<close>

definition startswith :: "string \<Rightarrow> string \<Rightarrow> bool" where
  "startswith s p = prefix p s"

definition endswith :: "string \<Rightarrow> string \<Rightarrow> bool" where
  "endswith s p = suffix p s"

text \<open>
  \<^verbatim>\<open>s.replace(old, new)\<close>: the occurrences of \<open>old\<close> are found from the left and do not
  overlap; an empty first argument matches before every character and at the end.
\<close>

function replace :: "string \<Rightarrow> string \<Rightarrow> string \<Rightarrow> string" where
  "replace [] old_s new_s = (if old_s = [] then new_s else [])"
| "replace (c # cs) old_s new_s =
     (if old_s = [] then new_s @ c # replace cs old_s new_s
      else if prefix old_s (c # cs)
      then new_s @ replace (drop (length old_s) (c # cs)) old_s new_s
      else c # replace cs old_s new_s)"
  by pat_completeness auto
termination
  by (relation "measure (\<lambda>(s, old_s, new_s). length s)") auto

subsection \<open>\<^verbatim>\<open>posixpath\<close>\<close>

definition sep :: char where
  "sep = CHR ''/''"

text \<open>\<^verbatim>\<open>join(a, b)\<close>, one step of the loop over the later arguments.\<close>

definition join :: "string \<Rightarrow> string \<Rightarrow> string" where
  "join path b =
     (if startswith b [sep] then b
      else if path = [] \<or> endswith path [sep] then path @ b
      else path @ [sep] @ b)"

text \<open>\<^verbatim>\<open>join(*rel_list)\<close> for a non-empty list.\<close>

definition join_list :: "string list \<Rightarrow> string" where
  "join_list ps = foldl join (hd ps) (tl ps)"

text \<open>\<^verbatim>\<open>path.split(sep)\<close>: the pieces between the separators, at least one.\<close>

fun split_sep :: "string \<Rightarrow> string list" where
  "split_sep [] = [[]]"
| "split_sep (c # cs) =
     (if c = sep then [] # split_sep cs
      else (case split_sep cs of [] \<Rightarrow> [[c]] | x # xs \<Rightarrow> (c # x) # xs))"

text \<open>\<^verbatim>\<open>sep.join(comps)\<close>.\<close>

fun sep_join :: "string list \<Rightarrow> string" where
  "sep_join [] = []"
| "sep_join [x] = x"
| "sep_join (x # y # ys) = x @ [sep] @ sep_join (y # ys)"

text \<open>The body of the loop of \<^verbatim>\<open>normpath\<close> over the pieces of the path.\<close>

definition normpath_step :: "nat \<Rightarrow> string list \<Rightarrow> string \<Rightarrow> string list" where
  "normpath_step initial_slashes new_comps piece =
     (if piece = [] \<or> piece = ''.'' then new_comps
      else if piece \<noteq> ''..'' \<or> (initial_slashes = 0 \<and> new_comps = [])
                \<or> (new_comps \<noteq> [] \<and> last new_comps = ''..'')
      then new_comps @ [piece]
      else if new_comps \<noteq> [] then butlast new_comps
      else new_comps)"

definition initial_slashes_of :: "string \<Rightarrow> nat" where
  "initial_slashes_of path =
     (if startswith path [sep]
      then (if startswith path [sep, sep] \<and> \<not> startswith path [sep, sep, sep] then 2 else 1)
      else 0)"

definition normpath :: "string \<Rightarrow> string" where
  "normpath path =
     (if path = [] then ''.''
      else
        let initial_slashes = initial_slashes_of path;
            comps = foldl (normpath_step initial_slashes) [] (split_sep path);
            path' = replicate initial_slashes sep @ sep_join comps
        in if path' = [] then ''.'' else path')"

text \<open>\<^verbatim>\<open>abspath\<close>; the first argument is the value of \<^verbatim>\<open>os.getcwd()\<close>.\<close>

definition abspath :: "string \<Rightarrow> string \<Rightarrow> string" where
  "abspath cwd path = normpath (if startswith path [sep] then path else join cwd path)"

text \<open>\<^verbatim>\<open>commonprefix\<close> of two lists: their longest common prefix.\<close>

fun commonprefix :: "string list \<Rightarrow> string list \<Rightarrow> string list" where
  "commonprefix (x # xs) (y # ys) = (if x = y then x # commonprefix xs ys else [])"
| "commonprefix xs ys = []"

text \<open>\<^verbatim>\<open>relpath(path, start)\<close>; an empty \<open>path\<close> raises \<^verbatim>\<open>ValueError\<close>.\<close>

definition relpath :: "string \<Rightarrow> string \<Rightarrow> string \<Rightarrow> py_error + string" where
  "relpath cwd path start =
     (if path = [] then Inl ValueError
      else
        let start_list = filter (\<lambda>x. x \<noteq> []) (split_sep (abspath cwd start));
            path_list = filter (\<lambda>x. x \<noteq> []) (split_sep (abspath cwd path));
            i = length (commonprefix start_list path_list);
            rel_list = replicate (length start_list - i) ''..'' @ drop i path_list
        in if rel_list = [] then Inr ''.'' else Inr (join_list rel_list))"

subsection \<open>The file tree and \<^verbatim>\<open>os.walk\<close>\<close>

text \<open>
  A directory holds the names of its entries that are not directories and its
  sub-directories by name, each in the order \<^verbatim>\<open>os.scandir\<close> reports them.
\<close>

datatype tree = Tree (files: "string list") (subdirs: "(string \<times> tree) list")

datatype fs_node = RegularFile | Directory tree

text \<open>
  \<^verbatim>\<open>os.walk(top)\<close>, top-down: the triple of the directory itself, then the walks of its
  sub-directories under \<^verbatim>\<open>join(top, name)\<close>.
\<close>

fun walk :: "string \<Rightarrow> tree \<Rightarrow> (string \<times> string list \<times> string list) list"
  and walk_subdirs :: "string \<Rightarrow> (string \<times> tree) list \<Rightarrow> (string \<times> string list \<times> string list) list"
where
  "walk topdir (Tree fs ds) = (topdir, map fst ds, fs) # walk_subdirs topdir ds"
| "walk_subdirs topdir [] = []"
| "walk_subdirs topdir ((name, t) # ds) = walk (join topdir name) t @ walk_subdirs topdir ds"




subsection \<open>\<^verbatim>\<open>shlex.split\<close>\<close>

text \<open>
  \<^verbatim>\<open>shlex.split(s)\<close> runs the lexer in POSIX mode with \<^verbatim>\<open>whitespace_split\<close> set and no
  comment characters. The lexer reads one character at a time; its variables are the
  fields of the record, \<open>tokens\<close> being the tokens returned so far. The state \<^verbatim>\<open>' '\<close> is
  \<open>Between\<close>, \<^verbatim>\<open>'a'\<close> is \<open>InWord\<close>, a quote character is \<open>InQuote\<close> and the escape character
  is \<open>Escaped\<close>.
\<close>

datatype lex_state = Between | InWord | InQuote char | Escaped

record lexer =
  state :: lex_state
  escapedstate :: lex_state
  quoted :: bool
  token :: string
  tokens :: "string list"

definition whitespace :: "char set" where
  "whitespace = {CHR '' '', CHR 0x09, CHR 0x0D, CHR 0x0A}"

definition quotes :: "char set" where
  "quotes = {CHR 0x27, CHR 0x22}"

definition escape :: char where
  "escape = CHR 0x5C"

definition escapedquotes :: "char set" where
  "escapedquotes = {CHR 0x22}"

text \<open>Leaving \<^verbatim>\<open>read_token\<close> with the current token, when there is one.\<close>

definition emit :: "lexer \<Rightarrow> lexer" where
  "emit l =
     (if token l \<noteq> [] \<or> quoted l
      then l\<lparr>tokens := tokens l @ [token l], token := [], quoted := False, escapedstate := Between\<rparr>
      else l)"

definition lex_char :: "lexer \<Rightarrow> char \<Rightarrow> lexer" where
  "lex_char l nextchar =
     (case state l of
        Between \<Rightarrow>
          if nextchar \<in> whitespace then emit l
          else if nextchar = escape then l\<lparr>escapedstate := InWord, state := Escaped\<rparr>
          else if nextchar \<in> quotes then l\<lparr>state := InQuote nextchar\<rparr>
          else l\<lparr>token := [nextchar], state := InWord\<rparr>
      | InQuote q \<Rightarrow>
          if nextchar = q then l\<lparr>quoted := True, state := InWord\<rparr>
          else if nextchar = escape \<and> q \<in> escapedquotes
          then l\<lparr>quoted := True, escapedstate := InQuote q, state := Escaped\<rparr>
          else l\<lparr>quoted := True, token := token l @ [nextchar]\<rparr>
      | Escaped \<Rightarrow>
          (let t = (if (\<exists>q. escapedstate l = InQuote q \<and> nextchar \<noteq> q) \<and> nextchar \<noteq> escape
                    then token l @ [escape] else token l)
           in l\<lparr>token := t @ [nextchar], state := escapedstate l\<rparr>)
      | InWord \<Rightarrow>
          if nextchar \<in> whitespace then emit (l\<lparr>state := Between\<rparr>)
          else if nextchar \<in> quotes then l\<lparr>state := InQuote nextchar\<rparr>
          else if nextchar = escape then l\<lparr>escapedstate := InWord, state := Escaped\<rparr>
          else l\<lparr>token := token l @ [nextchar]\<rparr>)"

text \<open>The end of the input: an open quotation or escape raises \<^verbatim>\<open>ValueError\<close>.\<close>

definition lex_eof :: "lexer \<Rightarrow> string list option" where
  "lex_eof l =
     (case state l of
        Between \<Rightarrow> Some (tokens l)
      | InWord \<Rightarrow> Some (tokens (emit l))
      | InQuote q \<Rightarrow> None
      | Escaped \<Rightarrow> None)"

definition shlex_split :: "string \<Rightarrow> string list option" where
  "shlex_split s =
     lex_eof (foldl lex_char
       \<lparr>state = Between, escapedstate = Between, quoted = False, token = [], tokens = []\<rparr> s)"




section \<open>The runners\<close>

text \<open>
  The environment of a run: the working directory, the file system as the runners read
  it (the object at a path, when there is one) and \<^verbatim>\<open>subprocess.call\<close>, which returns the
  exit status of the external program and changes the outside world \<open>'w\<close>. Directory
  creation is recorded as an event and taken to succeed; the backup tree is taken not to
  change while it is walked.
\<close>

record 'w os_env =
  getcwd :: string
  lookup :: "string \<Rightarrow> fs_node option"
  subprocess_call :: "string list \<Rightarrow> 'w \<Rightarrow> int \<times> 'w"

text \<open>
  A runner yields the events it caused, the world it leaves and either the exception
  that ended it or its result.
\<close>

type_synonym ('w, 'a) run = "event list \<times> 'w \<times> (py_error + 'a)"

text \<open>The exit statuses of the external programs run, in order.\<close>

fun call_codes :: "event list \<Rightarrow> int list" where
  "call_codes [] = []"
| "call_codes (Call cmdl return_code # evs) = return_code # call_codes evs"
| "call_codes (ev # evs) = call_codes evs"

text \<open>
  A run continued from events and results that were already there: used to relate a
  loop started in the middle to the loop started afresh.
\<close>

definition prepend :: "event list \<Rightarrow> 'a list \<Rightarrow> ('w, 'a list) run \<Rightarrow> ('w, 'a list) run" where
  "prepend evs success r =
     (case r of
        (e, w, Inl err) \<Rightarrow> (evs @ e, w, Inl err)
      | (e, w, Inr s) \<Rightarrow> (evs @ e, w, Inr (success @ s)))"

definition dq :: char where
  "dq = CHR 0x22"

definition mask :: string where
  "mask = ''******''"

text \<open>\<^verbatim>\<open>os.path.exists\<close> and \<^verbatim>\<open>os.walk\<close> on the environment.\<close>

definition path_exists :: "'w os_env \<Rightarrow> string \<Rightarrow> bool" where
  "path_exists env p = (lookup env p \<noteq> None)"

definition os_walk :: "'w os_env \<Rightarrow> string \<Rightarrow> (string \<times> string list \<times> string list) list" where
  "os_walk env p = (case lookup env p of Some (Directory t) \<Rightarrow> walk p t | _ \<Rightarrow> [])"

text \<open>\<^verbatim>\<open>xs[-k] = v\<close> on a copy of the list; \<^verbatim>\<open>IndexError\<close> when the list is shorter.\<close>

definition set_from_end :: "string list \<Rightarrow> nat \<Rightarrow> string \<Rightarrow> py_error + string list" where
  "set_from_end xs k v =
     (if 0 < k \<and> k \<le> length xs then Inr (xs[length xs - k := v]) else Inl IndexError)"

subsection \<open>\<^verbatim>\<open>list_mailboxes\<close>\<close>

text \<open>
  \<^verbatim>\<open>getattr(migration, type_)\<close>; any name but \<open>old\<close> and \<open>new\<close> ends the run with
  \<^verbatim>\<open>AttributeError\<close> at the first mailbox.
\<close>

definition getattr_migration :: "migration \<Rightarrow> string \<Rightarrow> py_error + mailbox" where
  "getattr_migration m name =
     (if name = ''old'' then Inr (old m)
      else if name = ''new'' then Inr (new m)
      else Inl AttributeError)"

definition list_cmdline :: "mailbox \<Rightarrow> string" where
  "list_cmdline mailbox =
     ''imapbackup/imapgrab.py -l -s '' @ fmt (host mailbox)
       @ '' -u '' @ [dq] @ fmt (username mailbox) @ [dq]
       @ '' -p '' @ [dq] @ fmt (password mailbox) @ [dq]"

text \<open>The body of the loop (lines 177-187), up to the exit status.\<close>

definition list_one :: "'w os_env \<Rightarrow> mailbox \<Rightarrow> 'w \<Rightarrow> ('w, int) run" where
  "list_one env mailbox w =
     (let ev1 = [LogInfo (''Listing mailbox '' @ fmt (username mailbox))] in
      case shlex_split (list_cmdline mailbox) of
        None \<Rightarrow> (ev1, w, Inl ValueError)
      | Some cmdl \<Rightarrow>
          let ev2 = ev1 @ [LogDebug (butlast cmdl @ [mask])];
              (return_code, w') = subprocess_call env cmdl w
          in (ev2 @ [Call cmdl return_code], w', Inr return_code))"

fun list_loop ::
  "'w os_env \<Rightarrow> string \<Rightarrow> migration list \<Rightarrow> mailbox list \<Rightarrow> event list \<Rightarrow> 'w
     \<Rightarrow> ('w, mailbox list) run"
where
  "list_loop env type_arg [] success evs w = (evs, w, Inr success)"
| "list_loop env type_arg (migration # rest) success evs w =
     (case getattr_migration migration type_arg of
        Inl e \<Rightarrow> (evs, w, Inl e)
      | Inr mailbox \<Rightarrow>
          (case list_one env mailbox w of
             (evs1, w1, Inl e) \<Rightarrow> (evs @ evs1, w1, Inl e)
           | (evs1, w1, Inr return_code) \<Rightarrow>
               list_loop env type_arg rest
                 (if return_code = 0 then success @ [mailbox] else success) (evs @ evs1) w1))"

definition list_mailboxes ::
  "'w os_env \<Rightarrow> migration list \<Rightarrow> string \<Rightarrow> 'w \<Rightarrow> ('w, mailbox list) run"
where
  "list_mailboxes env migrations type_arg w = list_loop env type_arg migrations [] [] w"

subsection \<open>\<^verbatim>\<open>backup_mailboxes\<close>\<close>

text \<open>The per-user directory name (lines 200 and 230).\<close>

definition user_dir_name :: "string \<Rightarrow> string" where
  "user_dir_name u = replace u ''@'' ''_at_''"

text \<open>Line 200: the directory \<^verbatim>\<open>backup_mailboxes\<close> creates for a username.\<close>

definition backup_user_dir :: "string \<Rightarrow> string \<Rightarrow> string \<Rightarrow> string" where
  "backup_user_dir cwd output_dir u = abspath cwd (join output_dir (user_dir_name u))"

text \<open>Line 230: the directory \<^verbatim>\<open>restore_mailboxes\<close> looks for.\<close>

definition restore_user_dir :: "string \<Rightarrow> string \<Rightarrow> string" where
  "restore_user_dir backup_dir u = join backup_dir (user_dir_name u)"

definition backup_cmdline :: "mailbox \<Rightarrow> string \<Rightarrow> string \<Rightarrow> string" where
  "backup_cmdline mailbox ssl user_output_dir =
     ''imapbackup/imapgrab.py -v -d '' @ ssl
       @ '' -f '' @ [dq] @ user_output_dir @ [dq]
       @ '' -s '' @ [dq] @ fmt (host mailbox) @ [dq]
       @ '' -u '' @ [dq] @ fmt (username mailbox) @ [dq]
       @ '' -p '' @ [dq] @ fmt (password mailbox) @ [dq]
       @ '' -m '' @ [dq] @ ''_ALL_'' @ [dq]"

definition backup_one :: "'w os_env \<Rightarrow> string \<Rightarrow> mailbox \<Rightarrow> 'w \<Rightarrow> ('w, int) run" where
  "backup_one env output_dir mailbox w =
     (let ev1 = [LogInfo (''Backing up mailbox '' @ fmt (username mailbox))] in
      case username mailbox of
        None \<Rightarrow> (ev1, w, Inl AttributeError)
      | Some u \<Rightarrow>
          let user_output_dir = backup_user_dir (getcwd env) output_dir u;
              ev2 = ev1 @ [Mkdir user_output_dir];
              ssl = (if use_ssl mailbox then ''-S'' else [])
          in case shlex_split (backup_cmdline mailbox ssl user_output_dir) of
               None \<Rightarrow> (ev2, w, Inl ValueError)
             | Some cmdl \<Rightarrow>
                 (case set_from_end cmdl 3 mask of
                    Inl e \<Rightarrow> (ev2, w, Inl e)
                  | Inr cmdl_without_password \<Rightarrow>
                      let ev3 = ev2 @ [LogDebug cmdl_without_password];
                          (return_code, w') = subprocess_call env cmdl w
                      in (ev3 @ [Call cmdl return_code], w', Inr return_code)))"

fun backup_loop ::
  "'w os_env \<Rightarrow> string \<Rightarrow> migration list \<Rightarrow> mailbox list \<Rightarrow> event list \<Rightarrow> 'w
     \<Rightarrow> ('w, mailbox list) run"
where
  "backup_loop env output_dir [] success evs w = (evs, w, Inr success)"
| "backup_loop env output_dir (migration # rest) success evs w =
     (let mailbox = old migration in
      case backup_one env output_dir mailbox w of
        (evs1, w1, Inl e) \<Rightarrow> (evs @ evs1, w1, Inl e)
      | (evs1, w1, Inr return_code) \<Rightarrow>
          backup_loop env output_dir rest
            (if return_code = 0 then success @ [mailbox] else success) (evs @ evs1) w1)"

definition backup_mailboxes ::
  "'w os_env \<Rightarrow> migration list \<Rightarrow> string \<Rightarrow> 'w \<Rightarrow> ('w, mailbox list) run"
where
  "backup_mailboxes env migrations output_dir w =
     backup_loop env output_dir migrations [] [Makedirs output_dir] w"

subsection \<open>\<^verbatim>\<open>restore_mailboxes\<close>\<close>

definition restore_cmdline :: "mailbox \<Rightarrow> string \<Rightarrow> string \<Rightarrow> string \<Rightarrow> string" where
  "restore_cmdline mailbox ssl box_path mbox_file =
     ''imap_upload/imap_upload.py --retry 3 '' @ ssl
       @ '' --host '' @ [dq] @ fmt (host mailbox) @ [dq]
       @ '' --port '' @ fmt (port mailbox)
       @ '' --user '' @ [dq] @ fmt (username mailbox) @ [dq]
       @ '' --password '' @ [dq] @ fmt (password mailbox) @ [dq]
       @ '' --box '' @ [dq] @ box_path @ [dq]
       @ '' '' @ [dq] @ mbox_file @ [dq]"

text \<open>Line 244: the destination folder path of a file found by the walk.\<close>

definition box_imap_path :: "string \<Rightarrow> string \<Rightarrow> string \<Rightarrow> py_error + string" where
  "box_imap_path cwd box_file_relpath user_backup_dir =
     (case relpath cwd box_file_relpath user_backup_dir of
        Inl e \<Rightarrow> Inl e
      | Inr p \<Rightarrow> Inr (take (length p - 5) p))"

text \<open>Lines 242-261 for one file whose name ends with \<open>.mbox\<close>.\<close>

definition upload_one ::
  "'w os_env \<Rightarrow> migration \<Rightarrow> string \<Rightarrow> string \<Rightarrow> string \<Rightarrow> 'w \<Rightarrow> ('w, int) run"
where
  "upload_one env migration user_backup_dir root filename w =
     (let box_file_relpath = join root filename;
          box_file_abspath = abspath (getcwd env) box_file_relpath
      in case box_imap_path (getcwd env) box_file_relpath user_backup_dir of
           Inl e \<Rightarrow> ([], w, Inl e)
         | Inr box_path \<Rightarrow>
             let ssl = (if use_ssl (new migration) then ''--ssl'' else []) in
             case shlex_split (restore_cmdline (new migration) ssl box_path box_file_abspath) of
               None \<Rightarrow> ([], w, Inl ValueError)
             | Some cmdl \<Rightarrow>
                 (case set_from_end cmdl 4 mask of
                    Inl e \<Rightarrow> ([], w, Inl e)
                  | Inr cmdl_without_password \<Rightarrow>
                      let (return_code, w') = subprocess_call env cmdl w
                      in ([LogDebug cmdl_without_password, Call cmdl return_code,
                           Print return_code], w', Inr return_code)))"

text \<open>The loop over the files of one directory; \<open>ok\<close> is \<^verbatim>\<open>return_codes_all_ok\<close>.\<close>

fun restore_files ::
  "'w os_env \<Rightarrow> migration \<Rightarrow> string \<Rightarrow> string \<Rightarrow> string list \<Rightarrow> bool \<Rightarrow> event list \<Rightarrow> 'w
     \<Rightarrow> ('w, bool) run"
where
  "restore_files env migration user_backup_dir root [] ok evs w = (evs, w, Inr ok)"
| "restore_files env migration user_backup_dir root (filename # rest) ok evs w =
     (if endswith filename ''.mbox'' then
        (case upload_one env migration user_backup_dir root filename w of
           (evs1, w1, Inl e) \<Rightarrow> (evs @ evs1, w1, Inl e)
         | (evs1, w1, Inr return_code) \<Rightarrow>
             restore_files env migration user_backup_dir root rest
               (if return_code \<noteq> 0 then False else ok) (evs @ evs1) w1)
      else restore_files env migration user_backup_dir root rest ok evs w)"

text \<open>The loop over the triples of the walk.\<close>

fun restore_walk ::
  "'w os_env \<Rightarrow> migration \<Rightarrow> string \<Rightarrow> (string \<times> string list \<times> string list) list \<Rightarrow> bool
     \<Rightarrow> event list \<Rightarrow> 'w \<Rightarrow> ('w, bool) run"
where
  "restore_walk env migration user_backup_dir [] ok evs w = (evs, w, Inr ok)"
| "restore_walk env migration user_backup_dir ((root, dirs, fs) # rest) ok evs w =
     (case restore_files env migration user_backup_dir root fs ok evs w of
        (evs1, w1, Inl e) \<Rightarrow> (evs1, w1, Inl e)
      | (evs1, w1, Inr ok1) \<Rightarrow> restore_walk env migration user_backup_dir rest ok1 evs1 w1)"

text \<open>
  The body of the outer loop (lines 227-264): \<open>None\<close> when the pair is left by
  \<^verbatim>\<open>continue\<close>, otherwise the final \<^verbatim>\<open>return_codes_all_ok\<close>.
\<close>

text \<open>Line 227: the destination of the pair is not configured.\<close>

definition destination_unset :: "migration \<Rightarrow> bool" where
  "destination_unset migration =
     (\<not> truthy (username (new migration)) \<or> \<not> truthy (host (new migration)))"

definition restore_one ::
  "'w os_env \<Rightarrow> string \<Rightarrow> migration \<Rightarrow> 'w \<Rightarrow> ('w, bool option) run"
where
  "restore_one env backup_dir migration w =
     (if destination_unset migration
      then ([], w, Inr None)
      else
        case username (old migration) of
          None \<Rightarrow> ([], w, Inl AttributeError)
        | Some u \<Rightarrow>
            let user_backup_dir = restore_user_dir backup_dir u in
            if \<not> path_exists env user_backup_dir
            then ([LogError (''Could not find backup directory '' @ user_backup_dir
                              @ '', skipping this mailbox.'')], w, Inr None)
            else
              let ev1 = [LogInfo (''Restoring old '' @ u @ '' to new ''
                                   @ fmt (username (new migration)))]
              in case restore_walk env migration user_backup_dir
                        (os_walk env user_backup_dir) True ev1 w of
                   (evs1, w1, Inl e) \<Rightarrow> (evs1, w1, Inl e)
                 | (evs1, w1, Inr ok) \<Rightarrow> (evs1, w1, Inr (Some ok)))"

fun restore_loop ::
  "'w os_env \<Rightarrow> string \<Rightarrow> migration list \<Rightarrow> migration list \<Rightarrow> event list \<Rightarrow> 'w
     \<Rightarrow> ('w, migration list) run"
where
  "restore_loop env backup_dir [] success evs w = (evs, w, Inr success)"
| "restore_loop env backup_dir (migration # rest) success evs w =
     (case restore_one env backup_dir migration w of
        (evs1, w1, Inl e) \<Rightarrow> (evs @ evs1, w1, Inl e)
      | (evs1, w1, Inr r) \<Rightarrow>
          restore_loop env backup_dir rest
            (if r = Some True then success @ [migration] else success) (evs @ evs1) w1)"

definition restore_mailboxes ::
  "'w os_env \<Rightarrow> migration list \<Rightarrow> string \<Rightarrow> 'w \<Rightarrow> ('w, migration list) run"
where
  "restore_mailboxes env migrations backup_dir w = restore_loop env backup_dir migrations [] [] w"

section \<open>Example inputs\<close>

text \<open>
  The row of the end-to-end scenario, \<^verbatim>\<open>alice,pw1,imap.old.example,,true,alice,pw2,\<close>
  \<^verbatim>\<open>imap.new.example,,true\<close>, and a short row that configures no destination.
\<close>

definition ex_alice_row :: row where
  "ex_alice_row =
     \<lparr>old_username = Some ''alice'', old_pass = Some ''pw1'', old_host = Some ''imap.old.example'',
      old_port = Some [], old_ssl = Some ''true'',
      new_username = Some ''alice'', new_pass = Some ''pw2'', new_host = Some ''imap.new.example'',
      new_port = Some [], new_ssl = Some ''true''\<rparr>"

definition ex_bob_row :: row where
  "ex_bob_row =
     \<lparr>old_username = Some ''bob@example.org'', old_pass = Some ''pw3'',
      old_host = Some ''imap.old.example'', old_port = Some ''143'', old_ssl = Some ''False'',
      new_username = None, new_pass = None, new_host = None, new_port = None, new_ssl = None\<rparr>"

definition ex_alice :: migration where
  "ex_alice = row_migration ex_alice_row"

definition ex_bob :: migration where
  "ex_bob = row_migration ex_bob_row"

text \<open>
  A backup root holding \<^verbatim>\<open>alice/INBOX.mbox\<close>, \<^verbatim>\<open>alice/notes.txt\<close> and
  \<^verbatim>\<open>alice/INBOX/Sent.mbox\<close>. The world is the number of programs run so far; every program
  exits with status 0 except the second one of a run started at 0.
\<close>

definition ex_tree :: tree where
  "ex_tree = Tree [''INBOX.mbox'', ''notes.txt''] [(''INBOX'', Tree [''Sent.mbox''] [])]"

definition ex_env :: "nat os_env" where
  "ex_env =
     \<lparr>getcwd = ''/srv'',
      lookup = (\<lambda>p. if p = ''backups/alice'' then Some (Directory ex_tree) else None),
      subprocess_call = (\<lambda>cmdl w. (if w = 1 then 1 else 0, Suc w))\<rparr>"



section \<open>Properties of the loader\<close>

subsection \<open>Lower-casing and the text \<open>false\<close>\<close>

lemma of_char_lower_char:
  "(of_char (lower_char c) :: nat) =
     (if 65 \<le> (of_char c :: nat) \<and> (of_char c :: nat) \<le> 90 then of_char c + 32 else of_char c)"
  by (simp add: lower_char_def Let_def take_bit_eq_mod)

lemma lower_char_iff:
  "lower_char c = d \<longleftrightarrow>
     (if 65 \<le> (of_char c :: nat) \<and> (of_char c :: nat) \<le> 90 then of_char c + 32 else of_char c)
       = (of_char d :: nat)"
  using of_char_lower_char[of c] of_char_eq_iff[of "lower_char c" d, where ?'a = nat]
  by metis

lemma char_eq_code: "c = d \<longleftrightarrow> (of_char c :: nat) = of_char d"
  by simp

lemma lower_char_f: "lower_char c = CHR ''f'' \<longleftrightarrow> c = CHR ''f'' \<or> c = CHR ''F''"
  unfolding lower_char_iff char_eq_code[of c] by simp arith

lemma lower_char_a: "lower_char c = CHR ''a'' \<longleftrightarrow> c = CHR ''a'' \<or> c = CHR ''A''"
  unfolding lower_char_iff char_eq_code[of c] by simp arith

lemma lower_char_l: "lower_char c = CHR ''l'' \<longleftrightarrow> c = CHR ''l'' \<or> c = CHR ''L''"
  unfolding lower_char_iff char_eq_code[of c] by simp arith

lemma lower_char_s: "lower_char c = CHR ''s'' \<longleftrightarrow> c = CHR ''s'' \<or> c = CHR ''S''"
  unfolding lower_char_iff char_eq_code[of c] by simp arith

lemma lower_char_e: "lower_char c = CHR ''e'' \<longleftrightarrow> c = CHR ''e'' \<or> c = CHR ''E''"
  unfolding lower_char_iff char_eq_code[of c] by simp arith

lemma map5_eq_iff:
  "map f s = [a, b, c, d, e] \<longleftrightarrow>
     (\<exists>c1 c2 c3 c4 c5. s = [c1, c2, c3, c4, c5]
        \<and> f c1 = a \<and> f c2 = b \<and> f c3 = c \<and> f c4 = d \<and> f c5 = e)"
  by (auto simp: map_eq_Cons_conv)

lemma lower_false_iff:
  "lower s = ''false'' \<longleftrightarrow>
     (\<exists>c1 c2 c3 c4 c5. s = [c1, c2, c3, c4, c5]
        \<and> (c1 = CHR ''f'' \<or> c1 = CHR ''F'') \<and> (c2 = CHR ''a'' \<or> c2 = CHR ''A'')
        \<and> (c3 = CHR ''l'' \<or> c3 = CHR ''L'') \<and> (c4 = CHR ''s'' \<or> c4 = CHR ''S'')
        \<and> (c5 = CHR ''e'' \<or> c5 = CHR ''E''))"
  unfolding lower_def map5_eq_iff
  by (simp only: lower_char_f lower_char_a lower_char_l lower_char_s lower_char_e)

lemma parse_ssl_False_iff:
  "parse_ssl v = False \<longleftrightarrow> (\<exists>s. v = Some s \<and> lower s = ''false'')"
  by (cases v) (simp_all add: parse_ssl_def)

lemma row_migration_use_ssl:
  "use_ssl (old (row_migration r)) = parse_ssl (old_ssl r)"
  "use_ssl (new (row_migration r)) = parse_ssl (new_ssl r)"
  by (simp_all add: row_migration_def Let_def Migration_def Mailbox_def)

lemma row_migration_port:
  "port (old (row_migration r)) = default_port (old_port r) (parse_ssl (old_ssl r))"
  "port (new (row_migration r)) = default_port (new_port r) (parse_ssl (new_ssl r))"
  by (simp_all add: row_migration_def Let_def Migration_def Mailbox_def)

lemma row_migration_username:
  "username (old (row_migration r)) = old_username r"
  by (simp add: row_migration_def Let_def Migration_def Mailbox_def)

lemma parse_rows_filter:
  "parse_rows rs flt acc =
     acc @ map row_migration
       (filter (\<lambda>r. flt = [''all''] \<or> in_filter (old_username r) flt) rs)"
  by (induction rs arbitrary: acc) (simp_all add: Let_def row_migration_username)

subsection \<open>Claims about the loader\<close>

text \<open>
  C1. For every parsed row, an empty port field (missing or the empty text) becomes
  \<open>993\<close> when the security flag of the same descriptor is enabled and \<open>143\<close> when it is
  disabled; a non-empty port field is passed through unchanged. The source and the
  destination descriptor are treated independently, each from its own two fields.
\<close>

theorem C1_default_port:
  "port (old (row_migration r)) =
     (if old_port r = None \<or> old_port r = Some []
      then (if use_ssl (old (row_migration r)) then Some ''993'' else Some ''143'')
      else old_port r)
   \<and> port (new (row_migration r)) =
     (if new_port r = None \<or> new_port r = Some []
      then (if use_ssl (new (row_migration r)) then Some ''993'' else Some ''143'')
      else new_port r)"
proof -
  have t: "\<not> truthy v \<longleftrightarrow> v = None \<or> v = Some []" for v
    by (cases v) (simp_all add: truthy_def)
  show ?thesis
    by (simp only: row_migration_port row_migration_use_ssl default_port_def t)
qed

text \<open>
  C2. For every parsed row, the security flag of a descriptor is disabled exactly when
  the flag field is present and is the text \<open>false\<close> in any mix of upper and lower case;
  a missing field, an empty field and every other text give an enabled flag. This holds
  for \<open>old_ssl\<close> and \<open>new_ssl\<close> independently.
\<close>

theorem C2_security_flag:
  "(use_ssl (old (row_migration r)) = False \<longleftrightarrow>
      (\<exists>c1 c2 c3 c4 c5. old_ssl r = Some [c1, c2, c3, c4, c5]
        \<and> (c1 = CHR ''f'' \<or> c1 = CHR ''F'') \<and> (c2 = CHR ''a'' \<or> c2 = CHR ''A'')
        \<and> (c3 = CHR ''l'' \<or> c3 = CHR ''L'') \<and> (c4 = CHR ''s'' \<or> c4 = CHR ''S'')
        \<and> (c5 = CHR ''e'' \<or> c5 = CHR ''E'')))
   \<and> (use_ssl (new (row_migration r)) = False \<longleftrightarrow>
      (\<exists>c1 c2 c3 c4 c5. new_ssl r = Some [c1, c2, c3, c4, c5]
        \<and> (c1 = CHR ''f'' \<or> c1 = CHR ''F'') \<and> (c2 = CHR ''a'' \<or> c2 = CHR ''A'')
        \<and> (c3 = CHR ''l'' \<or> c3 = CHR ''L'') \<and> (c4 = CHR ''s'' \<or> c4 = CHR ''S'')
        \<and> (c5 = CHR ''e'' \<or> c5 = CHR ''E'')))"
proof -
  have k: "parse_ssl v = False \<longleftrightarrow>
      (\<exists>c1 c2 c3 c4 c5. v = Some [c1, c2, c3, c4, c5]
        \<and> (c1 = CHR ''f'' \<or> c1 = CHR ''F'') \<and> (c2 = CHR ''a'' \<or> c2 = CHR ''A'')
        \<and> (c3 = CHR ''l'' \<or> c3 = CHR ''L'') \<and> (c4 = CHR ''s'' \<or> c4 = CHR ''S'')
        \<and> (c5 = CHR ''e'' \<or> c5 = CHR ''E''))" for v
  proof (cases v)
    case None
    then show ?thesis by (simp add: parse_ssl_def)
  next
    case (Some s)
    have "parse_ssl (Some s) = False \<longleftrightarrow> lower s = ''false''"
      by (simp add: parse_ssl_def)
    then show ?thesis
      unfolding Some lower_false_iff by blast
  qed
  show ?thesis
    unfolding row_migration_use_ssl by (rule conjI; rule k)
qed

text \<open>
  C3. When the file opens, the loader returns the migration pairs of the retained rows
  in the order of the rows: every row when the filter is exactly the one-element list
  \<open>["all"]\<close>, and otherwise exactly the rows whose source username is a member of the
  filter list; rows with equal usernames are all retained.
\<close>

theorem C3_name_filter:
  "snd (parse_mailboxes_csv (\<lambda>p. Opened rows) csv_path mailboxes_filter) =
     Inr (map row_migration
       (if mailboxes_filter = [''all''] then rows
        else filter (\<lambda>r. \<exists>u. old_username r = Some u \<and> u \<in> set mailboxes_filter) rows))"
proof -
  have m: "in_filter v mailboxes_filter \<longleftrightarrow> (\<exists>u. v = Some u \<and> u \<in> set mailboxes_filter)" for v
    by (cases v) (simp_all add: in_filter_def)
  show ?thesis
    by (simp add: parse_mailboxes_csv_def parse_rows_filter m)
qed

section \<open>Properties of the runners\<close>

subsection \<open>Continuing a run\<close>

lemma prepend_Nil [simp]: "prepend [] [] r = r"
  by (simp add: prepend_def split: prod.split sum.split)

lemma prepend_prepend [simp]:
  "prepend e1 s1 (prepend e2 s2 r) = prepend (e1 @ e2) (s1 @ s2) r"
  by (simp add: prepend_def split: prod.split sum.split)

lemma prepend_Inl [simp]: "prepend evs success (e, w, Inl err) = (evs @ e, w, Inl err)"
  by (simp add: prepend_def)

lemma prepend_Inr [simp]: "prepend evs success (e, w, Inr s) = (evs @ e, w, Inr (success @ s))"
  by (simp add: prepend_def)

lemma prepend_eq_Inr:
  "prepend evs success r = (E, W, Inr S) \<longleftrightarrow>
     (\<exists>e s. r = (e, W, Inr s) \<and> E = evs @ e \<and> S = success @ s)"
  by (cases r rule: prod_cases3) (auto simp: prepend_def split: sum.split)

subsection \<open>The loops started in the middle\<close>

lemma list_loop_acc:
  "list_loop env t ms success evs w = prepend evs success (list_loop env t ms [] [] w)"
proof (induction ms arbitrary: success evs w)
  case Nil
  show ?case by simp
next
  case (Cons m ms)
  have step: "list_loop env t ms s e w' = prepend e s (list_loop env t ms [] [] w')" for s e w'
    by (rule Cons.IH)
  show ?case
  proof (cases "getattr_migration m t")
    case (Inl err)
    then show ?thesis by simp
  next
    case (Inr mb)
    obtain e1 w1 r1 where one: "list_one env mb w = (e1, w1, r1)"
      by (cases "list_one env mb w")
    show ?thesis
    proof (cases r1)
      case (Inl err)
      with Inr one show ?thesis by simp
    next
      case rc: (Inr rc)
      show ?thesis
        using Inr one rc
        by (simp add: step[of "success @ [mb]" "evs @ e1" w1] step[of "[mb]" e1 w1]
              step[of success "evs @ e1" w1] step[of "[]" e1 w1])
    qed
  qed
qed

lemma list_loop_Cons:
  "list_loop env t (m # ms) [] [] w =
     (case getattr_migration m t of
        Inl e \<Rightarrow> ([], w, Inl e)
      | Inr mailbox \<Rightarrow>
          (case list_one env mailbox w of
             (evs1, w1, Inl e) \<Rightarrow> (evs1, w1, Inl e)
           | (evs1, w1, Inr return_code) \<Rightarrow>
               prepend evs1 (if return_code = 0 then [mailbox] else [])
                 (list_loop env t ms [] [] w1)))"
  apply (simp split: sum.split prod.split)
  apply (intro allI impI conjI)
   apply (rule list_loop_acc)+
  done

lemma backup_loop_acc:
  "backup_loop env d ms success evs w = prepend evs success (backup_loop env d ms [] [] w)"
proof (induction ms arbitrary: success evs w)
  case Nil
  show ?case by simp
next
  case (Cons m ms)
  have step: "backup_loop env d ms s e w' = prepend e s (backup_loop env d ms [] [] w')" for s e w'
    by (rule Cons.IH)
  obtain e1 w1 r1 where one: "backup_one env d (old m) w = (e1, w1, r1)"
    by (cases "backup_one env d (old m) w")
  show ?case
  proof (cases r1)
    case (Inl err)
    with one show ?thesis by simp
  next
    case rc: (Inr rc)
    show ?thesis
      using one rc
      by (simp add: step[of "success @ [old m]" "evs @ e1" w1] step[of "[old m]" e1 w1]
            step[of success "evs @ e1" w1] step[of "[]" e1 w1])
  qed
qed

lemma backup_loop_Cons:
  "backup_loop env d (m # ms) [] [] w =
     (case backup_one env d (old m) w of
        (evs1, w1, Inl e) \<Rightarrow> (evs1, w1, Inl e)
      | (evs1, w1, Inr return_code) \<Rightarrow>
          prepend evs1 (if return_code = 0 then [old m] else [])
            (backup_loop env d ms [] [] w1))"
  apply (simp split: sum.split prod.split)
  apply (intro allI impI conjI)
   apply (rule backup_loop_acc)+
  done

lemma restore_loop_acc:
  "restore_loop env d ms success evs w = prepend evs success (restore_loop env d ms [] [] w)"
proof (induction ms arbitrary: success evs w)
  case Nil
  show ?case by simp
next
  case (Cons m ms)
  have step: "restore_loop env d ms s e w' = prepend e s (restore_loop env d ms [] [] w')" for s e w'
    by (rule Cons.IH)
  obtain e1 w1 r1 where one: "restore_one env d m w = (e1, w1, r1)"
    by (cases "restore_one env d m w")
  show ?case
  proof (cases r1)
    case (Inl err)
    with one show ?thesis by simp
  next
    case r: (Inr r)
    show ?thesis
      using one r
      by (simp add: step[of "success @ [m]" "evs @ e1" w1] step[of "[m]" e1 w1]
            step[of success "evs @ e1" w1] step[of "[]" e1 w1])
  qed
qed

lemma restore_loop_Cons:
  "restore_loop env d (m # ms) [] [] w =
     (case restore_one env d m w of
        (evs1, w1, Inl e) \<Rightarrow> (evs1, w1, Inl e)
      | (evs1, w1, Inr r) \<Rightarrow>
          prepend evs1 (if r = Some True then [m] else [])
            (restore_loop env d ms [] [] w1))"
  apply (simp split: sum.split prod.split)
  apply (intro allI impI conjI)
   apply (rule restore_loop_acc)+
  done

lemma restore_loop_append:
  "restore_loop env d (ms1 @ ms2) [] [] w =
     (case restore_loop env d ms1 [] [] w of
        (e, w1, Inl err) \<Rightarrow> (e, w1, Inl err)
      | (e, w1, Inr s) \<Rightarrow> prepend e s (restore_loop env d ms2 [] [] w1))"
proof (induction ms1 arbitrary: w)
  case Nil
  show ?case by simp
next
  case (Cons m ms1)
  show ?case
    unfolding append_Cons restore_loop_Cons Cons.IH
    by (simp split: prod.split sum.split add: prepend_def del: restore_loop.simps)
qed


declare list_loop.simps(2) [simp del] backup_loop.simps(2) [simp del] restore_loop.simps(2) [simp del]

lemma call_codes_append [simp]: "call_codes (a @ b) = call_codes a @ call_codes b"
  by (induction a rule: call_codes.induct) simp_all

lemma restore_one_skip:
  "destination_unset m \<Longrightarrow> restore_one env d m w = ([], w, Inr None)"
  by (simp add: restore_one_def)

lemma restore_loop_filter:
  "restore_loop env d (filter (\<lambda>m. \<not> destination_unset m) ms) [] [] w
     = restore_loop env d ms [] [] w"
proof (induction ms arbitrary: w)
  case Nil
  show ?case by simp
next
  case (Cons m ms)
  show ?case
  proof (cases "destination_unset m")
    case True
    then show ?thesis
      by (simp add: restore_loop_Cons restore_one_skip Cons.IH)
  next
    case False
    then show ?thesis
      by (simp add: restore_loop_Cons Cons.IH split: prod.split sum.split)
  qed
qed

lemma restore_loop_subseq:
  "restore_loop env d ms [] [] w = (E, W, Inr S) \<Longrightarrow> subseq S ms"
proof (induction ms arbitrary: w E W S)
  case Nil
  then show ?case by simp
next
  case (Cons m ms)
  from Cons.prems show ?case
    by (auto simp: restore_loop_Cons prepend_eq_Inr split: prod.splits sum.splits if_splits
          dest!: Cons.IH)
qed

lemma backup_loop_subseq:
  "backup_loop env d ms [] [] w = (E, W, Inr S) \<Longrightarrow> subseq S (map old ms)"
proof (induction ms arbitrary: w E W S)
  case Nil
  then show ?case by simp
next
  case (Cons m ms)
  from Cons.prems show ?case
    by (auto simp: backup_loop_Cons prepend_eq_Inr split: prod.splits sum.splits if_splits
          dest!: Cons.IH)
qed

lemma list_loop_subseq_old:
  "list_loop env ''old'' ms [] [] w = (E, W, Inr S) \<Longrightarrow> subseq S (map old ms)"
proof (induction ms arbitrary: w E W S)
  case Nil
  then show ?case by simp
next
  case (Cons m ms)
  from Cons.prems show ?case
    by (auto simp: list_loop_Cons prepend_eq_Inr getattr_migration_def
          split: prod.splits sum.splits if_splits dest!: Cons.IH)
qed

lemma list_loop_subseq_new:
  "list_loop env ''new'' ms [] [] w = (E, W, Inr S) \<Longrightarrow> subseq S (map new ms)"
proof (induction ms arbitrary: w E W S)
  case Nil
  then show ?case by simp
next
  case (Cons m ms)
  from Cons.prems show ?case
    by (auto simp: list_loop_Cons prepend_eq_Inr getattr_migration_def
          split: prod.splits sum.splits if_splits dest!: Cons.IH)
qed

lemma list_loop_other:
  "t \<noteq> ''old'' \<Longrightarrow> t \<noteq> ''new'' \<Longrightarrow> list_loop env t ms [] [] w = (E, W, Inr S) \<Longrightarrow> S = []"
  by (cases ms) (auto simp: list_loop_Cons getattr_migration_def)

lemma list_loop_subseq:
  "list_loop env t ms [] [] w = (E, W, Inr S) \<Longrightarrow>
     subseq S (map (\<lambda>m. if t = ''old'' then old m else new m) ms)"
  using list_loop_subseq_old[of env ms w E W S] list_loop_subseq_new[of env ms w E W S]
    list_loop_other[of t env ms w E W S]
  by (cases "t = ''old''"; cases "t = ''new''") auto

lemma upload_one_codes:
  "upload_one env m ubd root f w = (e, w', Inr rc) \<Longrightarrow> call_codes e = [rc]"
  by (auto simp: upload_one_def Let_def split: sum.splits option.splits prod.splits)

lemma list_one_codes:
  "list_one env mb w = (e, w', Inr rc) \<Longrightarrow> call_codes e = [rc]"
  by (auto simp: list_one_def Let_def split: sum.splits option.splits prod.splits)

lemma backup_one_codes:
  "backup_one env d mb w = (e, w', Inr rc) \<Longrightarrow> call_codes e = [rc]"
  by (auto simp: backup_one_def Let_def split: sum.splits option.splits prod.splits)

lemma restore_files_result:
  "restore_files env m ubd root fs ok evs w = (E, W, Inr ok') \<Longrightarrow>
     \<exists>e. E = evs @ e
       \<and> ok' = (ok \<and> list_all (\<lambda>rc. rc = 0) (call_codes e))
       \<and> length (call_codes e) = length (filter (\<lambda>f. endswith f ''.mbox'') fs)"
proof (induction fs arbitrary: ok evs w)
  case Nil
  then show ?case by simp
next
  case (Cons f fs)
  show ?case
  proof (cases "endswith f ''.mbox''")
    case False
    with Cons.prems Cons.IH[of ok evs w] show ?thesis by simp
  next
    case True
    obtain e1 w1 r1 where one: "upload_one env m ubd root f w = (e1, w1, r1)"
      by (cases "upload_one env m ubd root f w")
    show ?thesis
    proof (cases r1)
      case (Inl err)
      with True one Cons.prems show ?thesis by simp
    next
      case (Inr rc)
      with True one Cons.prems
      have "restore_files env m ubd root fs (if rc \<noteq> 0 then False else ok) (evs @ e1) w1
              = (E, W, Inr ok')"
        by simp
      from Cons.IH[OF this] obtain e where
        e: "E = (evs @ e1) @ e"
           "ok' = ((if rc \<noteq> 0 then False else ok) \<and> list_all (\<lambda>rc. rc = 0) (call_codes e))"
           "length (call_codes e) = length (filter (\<lambda>f. endswith f ''.mbox'') fs)"
        by blast
      have c: "call_codes e1 = [rc]"
        using one Inr by (auto dest: upload_one_codes)
      show ?thesis
        by (rule exI[of _ "e1 @ e"]) (use e c True in auto)
    qed
  qed
qed

lemma restore_walk_result:
  "restore_walk env m ubd triples ok evs w = (E, W, Inr ok') \<Longrightarrow>
     \<exists>e. E = evs @ e
       \<and> ok' = (ok \<and> list_all (\<lambda>rc. rc = 0) (call_codes e))
       \<and> length (call_codes e)
           = length (filter (\<lambda>f. endswith f ''.mbox'') (concat (map (\<lambda>(root, dirs, fs). fs) triples)))"
proof (induction triples arbitrary: ok evs w)
  case Nil
  then show ?case by simp
next
  case (Cons tr triples)
  obtain root dirs fs where tr: "tr = (root, dirs, fs)"
    by (cases tr)
  obtain e1 w1 r1 where one: "restore_files env m ubd root fs ok evs w = (e1, w1, r1)"
    by (cases "restore_files env m ubd root fs ok evs w")
  show ?case
  proof (cases r1)
    case (Inl err)
    with tr one Cons.prems show ?thesis by simp
  next
    case (Inr ok1)
    from restore_files_result[OF one[unfolded Inr]] obtain ea where
      ea: "e1 = evs @ ea" "ok1 = (ok \<and> list_all (\<lambda>rc. rc = 0) (call_codes ea))"
          "length (call_codes ea) = length (filter (\<lambda>f. endswith f ''.mbox'') fs)"
      by blast
    from tr one Inr Cons.prems
    have "restore_walk env m ubd triples ok1 e1 w1 = (E, W, Inr ok')"
      by simp
    from Cons.IH[OF this] obtain eb where
      eb: "E = e1 @ eb" "ok' = (ok1 \<and> list_all (\<lambda>rc. rc = 0) (call_codes eb))"
          "length (call_codes eb)
             = length (filter (\<lambda>f. endswith f ''.mbox'') (concat (map (\<lambda>(root, dirs, fs). fs) triples)))"
      by blast
    show ?thesis
      by (rule exI[of _ "ea @ eb"]) (use ea eb tr in auto)
  qed
qed

lemma restore_one_None:
  "restore_one env d m w = (e, w', Inr None) \<Longrightarrow> call_codes e = [] \<and> w' = w"
  by (auto simp: restore_one_def Let_def split: if_splits option.splits prod.splits sum.splits)

lemma restore_one_Some:
  assumes "restore_one env d m w = (e, w', Inr (Some ok))"
  shows "\<not> destination_unset m \<and>
    (\<exists>u. username (old m) = Some u \<and> path_exists env (restore_user_dir d u)
       \<and> ok = list_all (\<lambda>rc. rc = 0) (call_codes e)
       \<and> length (call_codes e)
           = length (filter (\<lambda>f. endswith f ''.mbox'')
               (concat (map (\<lambda>(root, dirs, fs). fs) (os_walk env (restore_user_dir d u))))))"
proof -
  from assms have nu: "\<not> destination_unset m"
    by (auto simp: restore_one_def split: if_splits)
  from assms nu obtain u where u: "username (old m) = Some u"
    by (cases "username (old m)") (auto simp: restore_one_def)
  from assms nu u have ex: "path_exists env (restore_user_dir d u)"
    by (auto simp: restore_one_def Let_def split: if_splits)
  from assms nu u ex
  have "restore_walk env m (restore_user_dir d u) (os_walk env (restore_user_dir d u)) True
          [LogInfo (''Restoring old '' @ u @ '' to new '' @ fmt (username (new m)))] w
        = (e, w', Inr ok)"
    by (auto simp: restore_one_def Let_def split: prod.splits sum.splits)
  from restore_walk_result[OF this] nu u ex show ?thesis
    by auto
qed

lemma list_one_total:
  "shlex_split (list_cmdline mb) \<noteq> None \<Longrightarrow>
     \<exists>e w' rc. list_one env mb w = (e, w', Inr rc) \<and> call_codes e = [rc]"
  by (auto simp: list_one_def Let_def split: prod.splits)

lemma list_loop_total:
  assumes t: "t = ''old'' \<or> t = ''new''"
  shows "\<forall>m\<in>set ms. shlex_split (list_cmdline (if t = ''old'' then old m else new m)) \<noteq> None \<Longrightarrow>
    \<exists>E W S. list_loop env t ms [] [] w = (E, W, Inr S)
      \<and> length (call_codes E) = length ms
      \<and> S = map fst (filter (\<lambda>(mb, rc). rc = 0)
                (zip (map (\<lambda>m. if t = ''old'' then old m else new m) ms) (call_codes E)))"
proof (induction ms arbitrary: w)
  case Nil
  show ?case by simp
next
  case (Cons m ms)
  let ?sel = "\<lambda>m. if t = ''old'' then old m else new m"
  have g: "getattr_migration m t = Inr (?sel m)"
    using t by (auto simp: getattr_migration_def)
  from Cons.prems have "shlex_split (list_cmdline (?sel m)) \<noteq> None"
    by simp
  from list_one_total[OF this, of env w] obtain e1 w1 rc where
    one: "list_one env (?sel m) w = (e1, w1, Inr rc)" and c1: "call_codes e1 = [rc]"
    by blast
  from Cons.prems have "\<forall>m\<in>set ms. shlex_split (list_cmdline (?sel m)) \<noteq> None"
    by simp
  from Cons.IH[OF this, of w1] obtain E W S where
    rest: "list_loop env t ms [] [] w1 = (E, W, Inr S)"
      "length (call_codes E) = length ms"
      "S = map fst (filter (\<lambda>(mb, rc). rc = 0) (zip (map ?sel ms) (call_codes E)))"
    by blast
  show ?case
    apply (rule exI[of _ "e1 @ E"], rule exI[of _ W])
    apply (rule exI[of _ "(if rc = 0 then [?sel m] else []) @ S"])
    using g one c1 rest by (simp add: list_loop_Cons)
qed

section \<open>Claims about the runners\<close>

text \<open>
  C6. Take a run of \<open>restore_mailboxes\<close> that returns, and any pair \<open>m\<close> of its input. The
  run is the run over the pairs before \<open>m\<close>, then the body of the loop for \<open>m\<close>, then the
  run over the pairs after \<open>m\<close>, which starts in the world the body left. The pair is
  added to the success list exactly when it was processed (not left by \<^verbatim>\<open>continue\<close>) and
  every upload run for it exited with status 0. A processed pair runs one upload for each
  file of its tree whose name ends with \<open>.mbox\<close>, whatever the earlier uploads returned.
\<close>

theorem C6_restore_success:
  assumes "restore_mailboxes env (ms1 @ m # ms2) backup_dir w = (E, W, Inr S)"
  shows "\<exists>e1 w1 s1 e2 w2 r e3 s2.
      restore_mailboxes env ms1 backup_dir w = (e1, w1, Inr s1)
    \<and> restore_one env backup_dir m w1 = (e2, w2, Inr r)
    \<and> restore_mailboxes env ms2 backup_dir w2 = (e3, W, Inr s2)
    \<and> E = e1 @ e2 @ e3
    \<and> S = s1 @ (if r = Some True then [m] else []) @ s2
    \<and> (r = Some True \<longleftrightarrow> r \<noteq> None \<and> list_all (\<lambda>rc. rc = 0) (call_codes e2))
    \<and> (r = None \<longrightarrow> call_codes e2 = [])
    \<and> (r \<noteq> None \<longrightarrow>
         (\<exists>u. username (old m) = Some u
            \<and> length (call_codes e2)
                = length (filter (\<lambda>f. endswith f ''.mbox'')
                    (concat (map (\<lambda>(root, dirs, fs). fs)
                       (os_walk env (restore_user_dir backup_dir u)))))))"
proof -
  from assms obtain e1 w1 s1 where
    a: "restore_loop env backup_dir ms1 [] [] w = (e1, w1, Inr s1)"
    and b: "prepend e1 s1 (restore_loop env backup_dir (m # ms2) [] [] w1) = (E, W, Inr S)"
    by (auto simp: restore_mailboxes_def restore_loop_append split: prod.splits sum.splits)
  from b obtain ex sx where
    c: "restore_loop env backup_dir (m # ms2) [] [] w1 = (ex, W, Inr sx)"
    and E: "E = e1 @ ex" and S: "S = s1 @ sx"
    by (auto simp: prepend_eq_Inr)
  from c obtain e2 w2 r where
    one: "restore_one env backup_dir m w1 = (e2, w2, Inr r)"
    and d: "prepend e2 (if r = Some True then [m] else [])
              (restore_loop env backup_dir ms2 [] [] w2) = (ex, W, Inr sx)"
    by (auto simp: restore_loop_Cons split: prod.splits sum.splits)
  from d obtain e3 s2 where
    rest: "restore_loop env backup_dir ms2 [] [] w2 = (e3, W, Inr s2)"
    and ex: "ex = e2 @ e3" and sx: "sx = (if r = Some True then [m] else []) @ s2"
    by (auto simp: prepend_eq_Inr)
  have r1: "r = Some True \<longleftrightarrow> r \<noteq> None \<and> list_all (\<lambda>rc. rc = 0) (call_codes e2)"
  proof (cases r)
    case None
    then show ?thesis by simp
  next
    case (Some ok)
    with restore_one_Some[OF one[unfolded Some]] show ?thesis by auto
  qed
  have r2: "r = None \<longrightarrow> call_codes e2 = []"
    using restore_one_None[of env backup_dir m w1 e2 w2] one by auto
  have r3: "r \<noteq> None \<longrightarrow>
         (\<exists>u. username (old m) = Some u
            \<and> length (call_codes e2)
                = length (filter (\<lambda>f. endswith f ''.mbox'')
                    (concat (map (\<lambda>(root, dirs, fs). fs)
                       (os_walk env (restore_user_dir backup_dir u))))))"
  proof (cases r)
    case None
    then show ?thesis by simp
  next
    case (Some ok)
    with restore_one_Some[OF one[unfolded Some]] show ?thesis by auto
  qed
  show ?thesis
    using a one rest E S ex sx r1 r2 r3
    unfolding restore_mailboxes_def by blast
qed

theorem C6_restore_success_witness:
  "restore_mailboxes ex_env ([ex_alice] @ ex_alice # [ex_alice]) ''backups/'' 0
     = (fst (restore_mailboxes ex_env [ex_alice, ex_alice, ex_alice] ''backups/'' 0), 6,
        Inr [ex_alice, ex_alice])
   \<and> (\<exists>e1 w1 s1 e2 w2 r e3 s2.
      restore_mailboxes ex_env [ex_alice] ''backups/'' 0 = (e1, w1, Inr s1)
    \<and> restore_one ex_env ''backups/'' ex_alice w1 = (e2, w2, Inr r)
    \<and> restore_mailboxes ex_env [ex_alice] ''backups/'' w2 = (e3, 6, Inr s2)
    \<and> [ex_alice, ex_alice] = s1 @ (if r = Some True then [ex_alice] else []) @ s2
    \<and> (r = Some True) = (r \<noteq> None \<and> list_all (\<lambda>rc. rc = 0) (call_codes e2)))"
proof -
  have run: "restore_mailboxes ex_env ([ex_alice] @ ex_alice # [ex_alice]) ''backups/'' 0
     = (fst (restore_mailboxes ex_env [ex_alice, ex_alice, ex_alice] ''backups/'' 0), 6,
        Inr [ex_alice, ex_alice])"
    by code_simp
  from C6_restore_success[OF run] run show ?thesis
    by blast
qed

text \<open>
  C7. A pair whose destination username or destination host is missing or empty is left
  by the body of the loop at once: no event (no log call, no upload), the world
  unchanged, no result. A run of \<open>restore_mailboxes\<close> equals the run over the input
  without such pairs, so all other pairs are processed as if the pair were absent, and
  no such pair is in a returned success list.
\<close>

theorem C7_silent_skip:
  "(destination_unset m \<longleftrightarrow>
       username (new m) = None \<or> username (new m) = Some []
         \<or> host (new m) = None \<or> host (new m) = Some [])
   \<and> (destination_unset m \<longrightarrow> restore_one env backup_dir m w = ([], w, Inr None))
   \<and> restore_mailboxes env migrations backup_dir w
        = restore_mailboxes env (filter (\<lambda>m. \<not> destination_unset m) migrations) backup_dir w
   \<and> (\<forall>evs w' success.
         restore_mailboxes env migrations backup_dir w = (evs, w', Inr success)
           \<longrightarrow> list_all (\<lambda>m. \<not> destination_unset m) success)"
proof -
  have t: "\<not> truthy v \<longleftrightarrow> v = None \<or> v = Some []" for v
    by (cases v) (simp_all add: truthy_def)
  have a: "destination_unset m \<longleftrightarrow>
       username (new m) = None \<or> username (new m) = Some []
         \<or> host (new m) = None \<or> host (new m) = Some []"
    by (auto simp: destination_unset_def t)
  have b: "destination_unset m \<longrightarrow> restore_one env backup_dir m w = ([], w, Inr None)"
    by (simp add: restore_one_skip)
  have c: "restore_mailboxes env migrations backup_dir w
        = restore_mailboxes env (filter (\<lambda>m. \<not> destination_unset m) migrations) backup_dir w"
    by (simp add: restore_mailboxes_def restore_loop_filter)
  have d: "list_all (\<lambda>m. \<not> destination_unset m) success"
    if "restore_mailboxes env migrations backup_dir w = (evs, w', Inr success)"
    for evs w' success
  proof -
    from that c have "restore_loop env backup_dir
        (filter (\<lambda>m. \<not> destination_unset m) migrations) [] [] w = (evs, w', Inr success)"
      by (simp add: restore_mailboxes_def)
    from restore_loop_subseq[OF this]
    have "set success \<subseteq> set (filter (\<lambda>m. \<not> destination_unset m) migrations)"
      by (auto elim: list_emb_set)
    then show ?thesis
      by (auto simp: list_all_iff)
  qed
  from a b c d show ?thesis by blast
qed


theorem C7_silent_skip_witness:
  "destination_unset ex_bob
   \<and> restore_one ex_env ''backups/'' ex_bob 0 = ([], 0, Inr None)
   \<and> restore_mailboxes ex_env [ex_bob, ex_alice, ex_bob] ''backups/'' 2
        = restore_mailboxes ex_env [ex_alice] ''backups/'' 2
   \<and> snd (snd (restore_mailboxes ex_env [ex_alice] ''backups/'' 2)) = Inr [ex_alice]"
proof -
  have u: "destination_unset ex_bob"
    by code_simp
  have f: "filter (\<lambda>m. \<not> destination_unset m) [ex_bob, ex_alice, ex_bob] = [ex_alice]"
    by code_simp
  have r: "snd (snd (restore_mailboxes ex_env [ex_alice] ''backups/'' 2)) = Inr [ex_alice]"
    by code_simp
  from C7_silent_skip[of ex_bob ex_env "''backups/''" 0 "[ex_bob, ex_alice, ex_bob]"]
  have "restore_one ex_env ''backups/'' ex_bob 0 = ([], 0, Inr None)"
    using u by blast
  moreover
  from C7_silent_skip[of ex_bob ex_env "''backups/''" 2 "[ex_bob, ex_alice, ex_bob]"]
  have "restore_mailboxes ex_env [ex_bob, ex_alice, ex_bob] ''backups/'' 2
        = restore_mailboxes ex_env [ex_alice] ''backups/'' 2"
    unfolding f by blast
  ultimately show ?thesis
    using u r by blast
qed

text \<open>
  C10. The success list returned by \<open>list_mailboxes\<close> is a subsequence of the
  mailboxes selected from the input (the old ones for \<open>old\<close>, the new ones for \<open>new\<close>),
  the one returned by \<open>backup_mailboxes\<close> a subsequence of the old mailboxes of the input,
  and the one returned by \<open>restore_mailboxes\<close> a subsequence of the input pairs: order and
  values are those of the input, nothing is added.
\<close>

theorem C10_success_subsequence:
  "(list_mailboxes env migrations type_arg w = (E1, W1, Inr S1) \<longrightarrow>
      subseq S1 (map (\<lambda>m. if type_arg = ''old'' then old m else new m) migrations))
   \<and> (backup_mailboxes env migrations output_dir w = (E2, W2, Inr S2) \<longrightarrow>
      subseq S2 (map old migrations))
   \<and> (restore_mailboxes env migrations backup_dir w = (E3, W3, Inr S3) \<longrightarrow>
      subseq S3 migrations)"
proof (intro conjI impI)
  assume "list_mailboxes env migrations type_arg w = (E1, W1, Inr S1)"
  then show "subseq S1 (map (\<lambda>m. if type_arg = ''old'' then old m else new m) migrations)"
    unfolding list_mailboxes_def by (rule list_loop_subseq)
next
  assume "backup_mailboxes env migrations output_dir w = (E2, W2, Inr S2)"
  then obtain e where "backup_loop env output_dir migrations [] [] w = (e, W2, Inr S2)"
    unfolding backup_mailboxes_def
    by (subst (asm) backup_loop_acc) (auto simp: prepend_eq_Inr)
  then show "subseq S2 (map old migrations)"
    by (rule backup_loop_subseq)
next
  assume "restore_mailboxes env migrations backup_dir w = (E3, W3, Inr S3)"
  then show "subseq S3 migrations"
    unfolding restore_mailboxes_def by (rule restore_loop_subseq)
qed

theorem C10_success_subsequence_witness:
  "snd (snd (list_mailboxes ex_env [ex_alice, ex_bob, ex_alice] ''old'' 0))
     = Inr [old ex_alice, old ex_alice]
   \<and> subseq [old ex_alice, old ex_alice] (map old [ex_alice, ex_bob, ex_alice])
   \<and> snd (snd (backup_mailboxes ex_env [ex_alice, ex_bob, ex_alice] ''backups/'' 0))
     = Inr [old ex_alice, old ex_alice]
   \<and> snd (snd (restore_mailboxes ex_env [ex_alice, ex_bob, ex_alice] ''backups/'' 0))
     = Inr [ex_alice]
   \<and> subseq [ex_alice] [ex_alice, ex_bob, ex_alice]"
proof -
  let ?ms = "[ex_alice, ex_bob, ex_alice]"
  let ?L = "list_mailboxes ex_env ?ms ''old'' 0"
  let ?B = "backup_mailboxes ex_env ?ms ''backups/'' 0"
  let ?R = "restore_mailboxes ex_env ?ms ''backups/'' 0"
  have l: "snd (snd ?L) = Inr [old ex_alice, old ex_alice]"
    by code_simp
  have b: "snd (snd ?B) = Inr [old ex_alice, old ex_alice]"
    by code_simp
  have r: "snd (snd ?R) = Inr [ex_alice]"
    by code_simp
  have l': "?L = (fst ?L, fst (snd ?L), Inr [old ex_alice, old ex_alice])"
    using l by (metis prod.collapse)
  have b': "?B = (fst ?B, fst (snd ?B), Inr [old ex_alice, old ex_alice])"
    using b by (metis prod.collapse)
  have r': "?R = (fst ?R, fst (snd ?R), Inr [ex_alice])"
    using r by (metis prod.collapse)
  from C10_success_subsequence[of ex_env ?ms "''old''" 0 "fst ?L" "fst (snd ?L)"
      "[old ex_alice, old ex_alice]" "''backups/''" "fst ?B" "fst (snd ?B)"
      "[old ex_alice, old ex_alice]" "''backups/''" "fst ?R" "fst (snd ?R)" "[ex_alice]"]
    l' b' r'
  have "subseq [old ex_alice, old ex_alice] (map old ?ms) \<and> subseq [ex_alice] ?ms"
    by simp
  with l b r show ?thesis
    by blast
qed

text \<open>
  C8, as claimed, fails: \<^verbatim>\<open>return success\<close> stands after the loop, not in it. On two
  migrations the lister runs two listings and returns both mailboxes.
\<close>

theorem C8_counterexample:
  "call_codes (fst (list_mailboxes ex_env [ex_alice, ex_bob] ''old'' 2)) = [0, 0]
   \<and> snd (snd (list_mailboxes ex_env [ex_alice, ex_bob] ''old'' 2))
        = Inr [old ex_alice, old ex_bob]"
  by code_simp

text \<open>
  C8, amended. When the role is \<open>old\<close> or \<open>new\<close> and every command line can be split,
  \<open>list_mailboxes\<close> returns after the last migration: it runs one listing for each
  migration, in order, and its result holds exactly the mailboxes whose listing exited
  with status 0.
\<close>

theorem C8_list_processes_all:
  assumes "type_arg = ''old'' \<or> type_arg = ''new''"
    and "\<forall>m\<in>set migrations.
           shlex_split (list_cmdline (if type_arg = ''old'' then old m else new m)) \<noteq> None"
  shows "\<exists>E W S. list_mailboxes env migrations type_arg w = (E, W, Inr S)
      \<and> length (call_codes E) = length migrations
      \<and> S = map fst (filter (\<lambda>(mailbox, return_code). return_code = 0)
                (zip (map (\<lambda>m. if type_arg = ''old'' then old m else new m) migrations)
                     (call_codes E)))"
  unfolding list_mailboxes_def using list_loop_total[OF assms] .

theorem C8_list_processes_all_witness:
  "\<exists>E W S. list_mailboxes ex_env [ex_alice, ex_bob, ex_alice] ''old'' 0 = (E, W, Inr S)
      \<and> length (call_codes E) = 3
      \<and> call_codes E = [0, 1, 0]
      \<and> S = [old ex_alice, old ex_alice]"
proof -
  have t: "''old'' = ''old'' \<or> ''old'' = ''new''"
    by simp
  have s: "\<forall>m\<in>set [ex_alice, ex_bob, ex_alice].
      shlex_split (list_cmdline (if ''old'' = ''old'' then old m else new m)) \<noteq> None"
    by code_simp
  from C8_list_processes_all[OF t s, of ex_env 0] obtain E W S where
    r: "list_mailboxes ex_env [ex_alice, ex_bob, ex_alice] ''old'' 0 = (E, W, Inr S)"
       "length (call_codes E) = length [ex_alice, ex_bob, ex_alice]"
    by blast
  have c: "call_codes (fst (list_mailboxes ex_env [ex_alice, ex_bob, ex_alice] ''old'' 0)) = [0, 1, 0]"
    by code_simp
  have v: "snd (snd (list_mailboxes ex_env [ex_alice, ex_bob, ex_alice] ''old'' 0))
      = Inr [old ex_alice, old ex_alice]"
    by code_simp
  from r c v show ?thesis
    by auto
qed

section \<open>Properties of paths\<close>

subsection \<open>Splitting and joining at the separator\<close>

lemma split_sep_not_Nil [simp]: "split_sep s \<noteq> []"
  by (induction s) (auto split: list.split)









subsection \<open>Names of directory entries\<close>



subsection \<open>\<open>normpath\<close> and \<open>abspath\<close> under a joined name\<close>



lemma join_abs: "startswith b [sep] \<Longrightarrow> join a b = b"
  by (simp add: join_def)









subsection \<open>\<open>relpath\<close> of a path below its start\<close>


lemma commonprefix_append [simp]: "commonprefix xs (xs @ ys) = xs"
  by (induction xs) simp_all






subsection \<open>The walk and the files of the tree\<close>




section \<open>Claims about paths\<close>



subsection \<open>The per-user directory\<close>





section \<open>Properties of the lexer\<close>

subsection \<open>The lexer on pieces of a command line\<close>

lemma emit_tokens_idem [simp]: "tokens (emit (emit l)) = tokens (emit l)"
  by (simp add: emit_def)

lemma emit_state [simp]: "state (emit l) = state l"
  by (simp add: emit_def)

lemma emit_set_state [simp]: "tokens (emit (l\<lparr>state := s\<rparr>)) = tokens (emit l)"
  by (simp add: emit_def)



















subsection \<open>The command lines of the runners\<close>








subsection \<open>Masking by position\<close>

lemma butlast_mask: "butlast (pre @ [a]) @ [v] = pre @ [v]"
  by simp






section \<open>Claims about the logged command lines\<close>




end
